theory Spec2Isabelle
  imports Complex_Main
begin

section \<open>JavaScript numbers\<close>

text \<open>
  Every \<^verbatim>\<open>number\<close> of the source is an IEEE 754 binary64 value. A finite value is
  kept as the rational it denotes; \<open>Fin 0\<close> is \<open>+0\<close> and \<open>NegZero\<close> is \<open>-0\<close>.
  All NaNs are one value, as in JavaScript.
\<close>

datatype number = NaN | PosInf | NegInf | NegZero | Fin rat

text \<open>The number of binary digits of a positive integer.\<close>

function bits :: "int \<Rightarrow> nat" where
  "bits n = (if n \<le> 0 then 0 else Suc (bits (n div 2)))"
  by pat_completeness auto
termination
  by (relation "measure nat") auto

declare bits.simps [simp del]

definition pow2 :: "int \<Rightarrow> rat" where
  "pow2 k = (if 0 \<le> k then 2 ^ nat k else 1 / 2 ^ nat (- k))"

text \<open>\<open>ilog2 a\<close> is the integer \<open>e\<close> with \<open>2^e \<le> a < 2^(e+1)\<close>, for \<open>a > 0\<close>.\<close>

definition ilog2 :: "rat \<Rightarrow> int" where
  "ilog2 a = (if 1 \<le> a then int (bits \<lfloor>a\<rfloor>) - 1
              else - int (bits (\<lceil>1 / a\<rceil> - 1)))"

text \<open>Rounding a non-negative rational to an integer, ties to the even neighbour.\<close>

definition round_half_even :: "rat \<Rightarrow> int" where
  "round_half_even x =
     (let f = \<lfloor>x\<rfloor>; r = x - of_int f
      in if r < 1 / 2 then f
         else if 1 / 2 < r then f + 1
         else if even f then f else f + 1)"

text \<open>
  \<open>round64 q\<close> is the binary64 value of the exact result \<open>q\<close>: round to nearest, ties
  to even, with 53 significant bits, the least exponent \<open>-1022\<close> (below it the
  subnormals have spacing \<open>2^-1074\<close>), overflow to an infinity from \<open>2^1024\<close> on, and
  a result that rounds to zero keeping the sign of \<open>q\<close>.
\<close>

definition round64 :: "rat \<Rightarrow> number" where
  "round64 q =
     (if q = 0 then Fin 0
      else let a = \<bar>q\<bar>;
               k = max (ilog2 a) (- 1022) - 52;
               m = of_int (round_half_even (a / pow2 k)) * pow2 k
           in if pow2 1024 \<le> m then (if q < 0 then NegInf else PosInf)
              else if m = 0 then (if q < 0 then NegZero else Fin 0)
              else Fin (if q < 0 then - m else m))"

text \<open>A finite value is a number of the language when rounding leaves it unchanged.\<close>

fun is_number :: "number \<Rightarrow> bool" where
  "is_number (Fin q) = (round64 q = Fin q)"
| "is_number _ = True"

fun is_negative :: "number \<Rightarrow> bool" where
  "is_negative NegInf = True"
| "is_negative NegZero = True"
| "is_negative (Fin q) = (q < 0)"
| "is_negative _ = False"

fun is_zero :: "number \<Rightarrow> bool" where
  "is_zero NegZero = True"
| "is_zero (Fin q) = (q = 0)"
| "is_zero _ = False"

fun is_infinite :: "number \<Rightarrow> bool" where
  "is_infinite PosInf = True"
| "is_infinite NegInf = True"
| "is_infinite _ = False"

text \<open>\<^verbatim>\<open>Number.isFinite\<close>: neither NaN nor an infinity.\<close>

fun isFinite :: "number \<Rightarrow> bool" where
  "isFinite NaN = False"
| "isFinite PosInf = False"
| "isFinite NegInf = False"
| "isFinite _ = True"

fun val :: "number \<Rightarrow> rat" where
  "val (Fin q) = q"
| "val _ = 0"

definition signed_zero :: "bool \<Rightarrow> number" where
  "signed_zero neg = (if neg then NegZero else Fin 0)"

definition signed_inf :: "bool \<Rightarrow> number" where
  "signed_inf neg = (if neg then NegInf else PosInf)"

text \<open>The operator \<^verbatim>\<open>+\<close> on numbers.\<close>

definition num_add :: "number \<Rightarrow> number \<Rightarrow> number" where
  "num_add x y =
     (if x = NaN \<or> y = NaN then NaN
      else if is_infinite x \<and> is_infinite y then (if x = y then x else NaN)
      else if is_infinite x then x
      else if is_infinite y then y
      else if is_zero x \<and> is_zero y then signed_zero (is_negative x \<and> is_negative y)
      else if is_zero x then y
      else if is_zero y then x
      else round64 (val x + val y))"

text \<open>Unary minus and the operator \<^verbatim>\<open>-\<close>.\<close>

fun num_neg :: "number \<Rightarrow> number" where
  "num_neg NaN = NaN"
| "num_neg PosInf = NegInf"
| "num_neg NegInf = PosInf"
| "num_neg NegZero = Fin 0"
| "num_neg (Fin q) = (if q = 0 then NegZero else Fin (- q))"

definition num_sub :: "number \<Rightarrow> number \<Rightarrow> number" where
  "num_sub x y = num_add x (num_neg y)"

text \<open>The operator \<^verbatim>\<open>/\<close>: no operand makes it throw.\<close>

definition num_div :: "number \<Rightarrow> number \<Rightarrow> number" where
  "num_div x y =
     (let neg = (is_negative x \<noteq> is_negative y)
      in if x = NaN \<or> y = NaN then NaN
         else if is_infinite x then (if is_infinite y then NaN else signed_inf neg)
         else if is_infinite y then signed_zero neg
         else if is_zero y then (if is_zero x then NaN else signed_inf neg)
         else if is_zero x then signed_zero neg
         else round64 (val x / val y))"

text \<open>
  The relational operators \<^verbatim>\<open><\<close> and \<^verbatim>\<open>>\<close>: false as soon as an operand is NaN;
  the two zeros are equal.
\<close>

fun num_lt :: "number \<Rightarrow> number \<Rightarrow> bool" where
  "num_lt NaN _ = False"
| "num_lt _ NaN = False"
| "num_lt _ NegInf = False"
| "num_lt PosInf _ = False"
| "num_lt NegInf _ = True"
| "num_lt _ PosInf = True"
| "num_lt x y = (val x < val y)"

definition num_gt :: "number \<Rightarrow> number \<Rightarrow> bool" where
  "num_gt x y = num_lt y x"

section \<open>The data of \<^verbatim>\<open>DataManipulator.ts\<close>\<close>

text \<open>
  A \<^verbatim>\<open>Date\<close> is an object holding a time value, which is a number of milliseconds or
  NaN (an invalid date); the relational operators compare two dates by \<^verbatim>\<open>valueOf()\<close>.
\<close>

datatype Date = Date (valueOf: number)

text \<open>
  \<^verbatim>\<open>ServerRespond\<close> is imported from \<^verbatim>\<open>./DataStreamer\<close>; the fields below are those
  the class reads (\<^verbatim>\<open>top_ask.price\<close>, \<^verbatim>\<open>top_bid.price\<close>, \<^verbatim>\<open>timestamp\<close>).
\<close>

record Order =
  price :: number

record ServerRespond =
  top_ask :: Order
  top_bid :: Order
  timestamp :: Date

datatype Signal = BUY | SELL | HOLD

record Row =
  price_abc :: number
  price_def :: number
  ratio :: number
  timestamp :: Date
  upper_bound :: number
  lower_bound :: number
  trigger_alert :: "number option"
  moving_average :: number
  signal :: "Signal option"

text \<open>
  The only exception the code can raise is the built-in \<^verbatim>\<open>TypeError\<close>: a property read on
  \<^verbatim>\<open>undefined\<close> (an array index out of range) and \<^verbatim>\<open>reduce\<close> of an empty array with
  no initial value. There is no \<^verbatim>\<open>throw\<close> in the file.
\<close>

datatype error = TypeError

definition MOVING_AVERAGE_WINDOW :: nat where
  "MOVING_AVERAGE_WINDOW = 10"

text \<open>The literal \<^verbatim>\<open>0.05\<close> denotes the binary64 value nearest to \<open>5/100\<close>.\<close>

definition THRESHOLD :: number where
  "THRESHOLD = round64 (5 / 100)"

text \<open>\<^verbatim>\<open>xs[i]\<close>: \<^verbatim>\<open>undefined\<close> (here \<open>None\<close>) out of range.\<close>

definition index :: "'a list \<Rightarrow> nat \<Rightarrow> 'a option" where
  "index xs i = (if i < length xs then Some (xs ! i) else None)"

text \<open>\<^verbatim>\<open>xs.reduce(f)\<close> with no initial value: the first element starts the fold.\<close>

fun reduce :: "('a \<Rightarrow> 'a \<Rightarrow> 'a) \<Rightarrow> 'a list \<Rightarrow> error + 'a" where
  "reduce f [] = Inl TypeError"
| "reduce f (x # xs) = Inr (foldl f x xs)"

section \<open>The operations of \<^verbatim>\<open>DataManipulator\<close>\<close>

definition calculateMidPrice :: "ServerRespond \<Rightarrow> number" where
  "calculateMidPrice data =
     num_div (num_add (price (top_ask data)) (price (top_bid data))) (Fin 2)"

definition date_gt :: "Date \<Rightarrow> Date \<Rightarrow> bool" where
  "date_gt s t = num_gt (valueOf s) (valueOf t)"

definition getLatestTimestamp :: "ServerRespond list \<Rightarrow> error + Date" where
  "getLatestTimestamp serverResponds =
     (case index serverResponds 0 of
        None \<Rightarrow> Inl TypeError
      | Some r0 \<Rightarrow>
          (case index serverResponds 1 of
             None \<Rightarrow> Inl TypeError
           | Some r1 \<Rightarrow>
               Inr (if date_gt (ServerRespond.timestamp r0) (ServerRespond.timestamp r1)
                    then ServerRespond.timestamp r0 else ServerRespond.timestamp r1)))"

text \<open>
  The static \<^verbatim>\<open>movingAverageQueue\<close> is the state: the function takes the queue and
  returns what it returns or raises together with the queue it leaves behind.
  \<^verbatim>\<open>push\<close> appends, \<^verbatim>\<open>shift\<close> removes the first element.
\<close>

definition updateMovingAverage ::
    "number \<Rightarrow> number list \<Rightarrow> (error + number) \<times> number list" where
  "updateMovingAverage r queue =
     (let q1 = queue @ [r];
          q2 = (if length q1 > MOVING_AVERAGE_WINDOW then tl q1 else q1)
      in (case reduce num_add q2 of
            Inl e \<Rightarrow> Inl e
          | Inr s \<Rightarrow> Inr (num_div s (Fin (of_nat (length q2)))),
          q2))"

definition generateSignal ::
    "number \<Rightarrow> number \<Rightarrow> number \<Rightarrow> number \<Rightarrow> Signal option" where
  "generateSignal r movingAverage upperBound lowerBound =
     (if num_gt r upperBound \<and> num_gt r movingAverage then Some SELL
      else if num_lt r lowerBound \<and> num_lt r movingAverage then Some BUY
      else if num_gt r upperBound \<or> num_lt r lowerBound then Some HOLD
      else None)"

text \<open>
  \<^verbatim>\<open>generateRow\<close>. Reading \<^verbatim>\<open>serverResponds[0]\<close> or \<^verbatim>\<open>serverResponds[1]\<close> of a
  shorter array gives \<^verbatim>\<open>undefined\<close>, whose \<^verbatim>\<open>top_ask\<close> raises before the queue is
  touched. The \<^verbatim>\<open>console.log\<close> of the signal writes to the console only and is
  left out.
\<close>

definition generateRow ::
    "ServerRespond list \<Rightarrow> number list \<Rightarrow> (error + Row) \<times> number list" where
  "generateRow serverResponds queue =
     (case index serverResponds 0 of
        None \<Rightarrow> (Inl TypeError, queue)
      | Some r0 \<Rightarrow>
     (case index serverResponds 1 of
        None \<Rightarrow> (Inl TypeError, queue)
      | Some r1 \<Rightarrow>
     (let priceABC = calculateMidPrice r0;
          priceDEF = calculateMidPrice r1;
          r = num_div priceABC priceDEF;
          (res, queue') = updateMovingAverage r queue
      in (case res of
            Inl e \<Rightarrow> (Inl e, queue')
          | Inr movingAverage \<Rightarrow>
     (let upperBound = num_add (Fin 1) THRESHOLD;
          lowerBound = num_sub (Fin 1) THRESHOLD;
          sig = generateSignal r movingAverage upperBound lowerBound
      in (case getLatestTimestamp serverResponds of
            Inl e \<Rightarrow> (Inl e, queue')
          | Inr ts \<Rightarrow>
              (Inr \<lparr> price_abc = priceABC,
                     price_def = priceDEF,
                     ratio = r,
                     timestamp = ts,
                     upper_bound = upperBound,
                     lower_bound = lowerBound,
                     trigger_alert =
                       (if num_gt r upperBound \<or> num_lt r lowerBound then Some r else None),
                     moving_average = movingAverage,
                     signal = sig \<rparr>,
               queue')))))))"

text \<open>A run of pushes: the queue after calling \<^verbatim>\<open>updateMovingAverage\<close> on each ratio in turn.\<close>

fun pushes :: "number list \<Rightarrow> number list \<Rightarrow> number list" where
  "pushes queue [] = queue"
| "pushes queue (r # rs) = pushes (snd (updateMovingAverage r queue)) rs"

section \<open>The behaviour the specification describes\<close>

text \<open>
  The specification's classifier: a list of rules tried in order, the first whose
  condition holds giving the signal, and no signal when none holds.
\<close>

fun first_match :: "(bool \<times> 'a) list \<Rightarrow> 'a option" where
  "first_match [] = None"
| "first_match ((c, v) # rules) = (if c then Some v else first_match rules)"

definition spec_classify :: "number \<Rightarrow> number \<Rightarrow> number \<Rightarrow> number \<Rightarrow> Signal option" where
  "spec_classify r average upperBound lowerBound =
     first_match
       [(num_gt r upperBound \<and> num_gt r average, SELL),
        (num_lt r lowerBound \<and> num_lt r average, BUY),
        (num_gt r upperBound \<or> num_lt r lowerBound, HOLD)]"

text \<open>The errors of the specification's taxonomy; the source raises none of them.\<close>

datatype spec_error = InvalidQuote | DivisionByZero | InvalidConfiguration

text \<open>
  The specification's PriceNormalizer: prices must be finite and not below zero, else
  \<open>InvalidQuote\<close>; the result is \<open>(ask_price + bid_price) / 2\<close>.
\<close>

definition spec_midPrice :: "ServerRespond \<Rightarrow> spec_error + number" where
  "spec_midPrice data =
     (let ask = price (top_ask data); bid = price (top_bid data)
      in if isFinite ask \<and> isFinite bid \<and> \<not> num_lt ask (Fin 0) \<and> \<not> num_lt bid (Fin 0)
         then Inr (num_div (num_add ask bid) (Fin 2))
         else Inl InvalidQuote)"

text \<open>
  The specification's RatioCalculator: \<open>DivisionByZero\<close> when the second mid-price is
  zero or not finite, else the quotient.
\<close>

definition spec_ratio :: "number \<Rightarrow> number \<Rightarrow> spec_error + number" where
  "spec_ratio midA midB =
     (if isFinite midB \<and> \<not> is_zero midB then Inr (num_div midA midB)
      else Inl DivisionByZero)"

text \<open>A quote with the given ask price, bid price and time value.\<close>

definition quote :: "number \<Rightarrow> number \<Rightarrow> number \<Rightarrow> ServerRespond" where
  "quote ask bid t =
     \<lparr> top_ask = \<lparr> price = ask \<rparr>, top_bid = \<lparr> price = bid \<rparr>, timestamp = Date t \<rparr>"

text \<open>The number that the literal \<^verbatim>\<open>0.1\<close> denotes.\<close>

definition tenth :: number where
  "tenth = Fin (3602879701896397 / 36028797018963968)"

section \<open>Comparison, indexing and the window\<close>

lemma num_lt_irrefl: "\<not> num_lt x x"
  by (cases x) simp_all

lemma num_gt_irrefl: "\<not> num_gt x x"
  by (simp add: num_gt_def num_lt_irrefl)

lemma index_Cons_0: "index (x # xs) 0 = Some x"
  by (simp add: index_def)

lemma index_Cons_1: "index (x # y # xs) 1 = Some y"
  by (simp add: index_def)

lemma snd_updateMovingAverage:
  "snd (updateMovingAverage r queue) =
     (if length queue < MOVING_AVERAGE_WINDOW then queue @ [r] else tl (queue @ [r]))"
  by (auto simp: updateMovingAverage_def Let_def)

lemma window_nonempty: "snd (updateMovingAverage r queue) \<noteq> []"
  by (cases queue) (auto simp: snd_updateMovingAverage MOVING_AVERAGE_WINDOW_def)

lemma fst_updateMovingAverage:
  "fst (updateMovingAverage r queue) =
     (let q2 = snd (updateMovingAverage r queue)
      in Inr (num_div (foldl num_add (hd q2) (tl q2)) (Fin (of_nat (length q2)))))"
proof -
  obtain x xs where q2: "snd (updateMovingAverage r queue) = x # xs"
    using window_nonempty [of r queue] by (cases "snd (updateMovingAverage r queue)") auto
  then show ?thesis
    by (simp add: updateMovingAverage_def Let_def split: if_splits)
qed

text \<open>What \<open>generateRow\<close> returns for an array of at least two quotes.\<close>

lemma generateRow_pair:
  "generateRow (a # b # rest) queue =
     (let r = num_div (calculateMidPrice a) (calculateMidPrice b);
          ub = num_add (Fin 1) THRESHOLD;
          lb = num_sub (Fin 1) THRESHOLD;
          q2 = snd (updateMovingAverage r queue);
          avg = num_div (foldl num_add (hd q2) (tl q2)) (Fin (of_nat (length q2)))
      in (Inr \<lparr> price_abc = calculateMidPrice a,
                 price_def = calculateMidPrice b,
                 ratio = r,
                 timestamp = (if date_gt (ServerRespond.timestamp a) (ServerRespond.timestamp b)
                              then ServerRespond.timestamp a else ServerRespond.timestamp b),
                 upper_bound = ub,
                 lower_bound = lb,
                 trigger_alert = (if num_gt r ub \<or> num_lt r lb then Some r else None),
                 moving_average = avg,
                 signal = generateSignal r avg ub lb \<rparr>,
          q2))"
proof -
  let ?r = "num_div (calculateMidPrice a) (calculateMidPrice b)"
  obtain res q2 where u: "updateMovingAverage ?r queue = (res, q2)"
    by (cases "updateMovingAverage ?r queue")
  have q2: "q2 = snd (updateMovingAverage ?r queue)"
    using u by simp
  have res: "res = Inr (num_div (foldl num_add (hd q2) (tl q2)) (Fin (of_nat (length q2))))"
    using fst_updateMovingAverage [of ?r queue] u by (simp add: Let_def)
  show ?thesis
    unfolding generateRow_def getLatestTimestamp_def index_Cons_0 index_Cons_1
    by (simp add: u res Let_def q2 [symmetric])
qed

section \<open>Rounding to binary64\<close>

text \<open>Powers of two with an integer exponent.\<close>

lemma pow2_powi: "pow2 k = 2 powi k"
  by (simp add: pow2_def power_int_def inverse_eq_divide power_one_over)

lemma pow2_pos: "0 < pow2 k"
  by (simp add: pow2_powi)

lemma pow2_Suc: "pow2 (k + 1) = 2 * pow2 k"
  by (simp add: pow2_powi power_int_add_1')

lemma pow2_strict_mono: "k < l \<Longrightarrow> pow2 k < pow2 l"
  by (simp add: pow2_powi power_int_strict_increasing)

lemma pow2_mono: "k \<le> l \<Longrightarrow> pow2 k \<le> pow2 l"
  by (simp add: pow2_powi power_int_increasing)

lemma pow2_nat: "pow2 (int n) = 2 ^ n"
  by (simp add: pow2_def)

lemma pow2_neg_nat: "pow2 (- int n) = 1 / 2 ^ n"
  by (simp add: pow2_powi power_int_minus inverse_eq_divide)

text \<open>\<open>round_half_even\<close> returns the nearest integer, and the even one at a tie.\<close>

lemma round_half_even_nearest:
  assumes "\<bar>x - of_int n\<bar> < 1 / 2"
  shows "round_half_even x = n"
proof -
  from assms have lo: "of_int n - 1 / 2 < x" and hi: "x < of_int n + 1 / 2"
    by linarith+
  have "of_int (n - 1) \<le> x" using lo by simp
  then have "n - 1 \<le> \<lfloor>x\<rfloor>" by (simp only: le_floor_iff)
  moreover have "x < of_int (n + 1)" using hi by simp
  then have "\<lfloor>x\<rfloor> < n + 1" by (simp only: floor_less_iff)
  ultimately have "\<lfloor>x\<rfloor> = n \<or> \<lfloor>x\<rfloor> = n - 1"
    by linarith
  then show ?thesis
  proof
    assume f: "\<lfloor>x\<rfloor> = n"
    with hi show ?thesis
      by (simp add: round_half_even_def Let_def)
  next
    assume f: "\<lfloor>x\<rfloor> = n - 1"
    with lo show ?thesis
      by (simp add: round_half_even_def Let_def)
  qed
qed

text \<open>\<open>bits\<close> and \<open>ilog2\<close> compute the position of the leading binary digit.\<close>

lemma bits_bounds: "0 < n \<Longrightarrow> 2 ^ (bits n - 1) \<le> n \<and> n < 2 ^ bits n"
proof (induction n rule: bits.induct)
  case (1 n)
  show ?case
  proof (cases "n div 2 = 0")
    case True
    with "1.prems" have "n = 1" by linarith
    then show ?thesis
      by (simp add: bits.simps [of 1] bits.simps [of 0])
  next
    case False
    with "1.prems" have m: "0 < n div 2" by linarith
    have b: "bits n = Suc (bits (n div 2))"
      using "1.prems" by (simp add: bits.simps [of n])
    from "1.IH" m "1.prems"
    have ih: "2 ^ (bits (n div 2) - 1) \<le> n div 2" "n div 2 < 2 ^ bits (n div 2)"
      by simp_all
    have pos: "0 < bits (n div 2)"
      using m by (simp add: bits.simps [of "n div 2"])
    then have "(2::int) ^ bits (n div 2) = 2 * 2 ^ (bits (n div 2) - 1)"
      by (cases "bits (n div 2)") simp_all
    with ih show ?thesis
      unfolding b by (simp, linarith)
  qed
qed

lemma bits_pos: "0 < n \<Longrightarrow> 0 < bits n"
  by (simp add: bits.simps [of n])

lemma ilog2_bounds:
  assumes "0 < a"
  shows "pow2 (ilog2 a) \<le> a \<and> a < pow2 (ilog2 a + 1)"
proof (cases "1 \<le> a")
  case True
  define n where "n = \<lfloor>a\<rfloor>"
  define b where "b = bits n"
  have n: "0 < n" using True by (simp add: n_def)
  have b: "0 < b" using n by (simp add: b_def bits_pos)
  have e: "ilog2 a = int (b - 1)"
    using True b by (simp add: ilog2_def n_def b_def)
  have e1: "ilog2 a + 1 = int b"
    using e b by simp
  from bits_bounds [OF n] have lo: "2 ^ (b - 1) \<le> n" and hi: "n + 1 \<le> 2 ^ b"
    by (simp_all add: b_def)
  have "(2::rat) ^ (b - 1) = of_int (2 ^ (b - 1))" by simp
  also have "\<dots> \<le> of_int n" using lo by (simp only: of_int_le_iff)
  also have "\<dots> \<le> a" by (simp add: n_def)
  finally have 1: "pow2 (ilog2 a) \<le> a"
    by (simp add: e pow2_nat)
  have "a < of_int (n + 1)" using floor_correct [of a] by (simp add: n_def)
  also have "\<dots> \<le> of_int (2 ^ b)" using hi by (simp only: of_int_le_iff)
  also have "\<dots> = (2::rat) ^ b" by simp
  finally have 2: "a < pow2 (ilog2 a + 1)"
    by (simp add: e1 pow2_nat)
  from 1 2 show ?thesis ..
next
  case False
  define c where "c = \<lceil>1 / a\<rceil> - 1"
  define b where "b = bits c"
  have "1 < 1 / a" using False assms by simp
  then have "1 < \<lceil>1 / a\<rceil>" by (simp add: less_ceiling_iff)
  then have c: "0 < c" by (simp add: c_def)
  have b: "0 < b" using c by (simp add: b_def bits_pos)
  have e: "ilog2 a = - int b"
    using False by (simp add: ilog2_def c_def b_def)
  have e1: "ilog2 a + 1 = - int (b - 1)"
    using e b by simp
  from bits_bounds [OF c] have lo: "2 ^ (b - 1) \<le> c" and hi: "c + 1 \<le> 2 ^ b"
    by (simp_all add: b_def)
  have "1 / a \<le> of_int (c + 1)" using ceiling_correct [of "1 / a"] by (simp add: c_def)
  also have "\<dots> \<le> of_int (2 ^ b)" using hi by (simp only: of_int_le_iff)
  also have "\<dots> = (2::rat) ^ b" by simp
  finally have "1 / a \<le> 2 ^ b" .
  then have "1 \<le> 2 ^ b * a" using assms by (simp add: field_simps)
  then have 1: "pow2 (ilog2 a) \<le> a"
    unfolding e pow2_neg_nat by (simp add: field_simps)
  have "(2::rat) ^ (b - 1) = of_int (2 ^ (b - 1))" by simp
  also have "\<dots> \<le> of_int c" using lo by (simp only: of_int_le_iff)
  also have "\<dots> < 1 / a" using ceiling_correct [of "1 / a"] by (simp add: c_def)
  finally have "2 ^ (b - 1) * a < 1" using assms by (simp add: field_simps)
  then have 2: "a < pow2 (ilog2 a + 1)"
    unfolding e1 pow2_neg_nat by (simp add: field_simps)
  from 1 2 show ?thesis ..
qed

lemma ilog2_unique:
  assumes "pow2 e \<le> a" and "a < pow2 (e + 1)"
  shows "ilog2 a = e"
proof -
  have a: "0 < a" using assms(1) pow2_pos [of e] by linarith
  note b = ilog2_bounds [OF a]
  have "\<not> ilog2 a < e"
  proof
    assume "ilog2 a < e"
    then have "pow2 (ilog2 a + 1) \<le> pow2 e" by (simp add: pow2_mono)
    with b assms show False by linarith
  qed
  moreover have "\<not> e < ilog2 a"
  proof
    assume "e < ilog2 a"
    then have "pow2 (e + 1) \<le> pow2 (ilog2 a)" by (simp add: pow2_mono)
    with b assms show False by linarith
  qed
  ultimately show ?thesis by linarith
qed

text \<open>
  A certificate for one rounding in the normal range: the exponent \<open>e\<close> of the exact
  result and the 53-bit significand \<open>n\<close> of the rounded one. Its premises are
  comparisons of rationals, so a concrete rounding is checked by simplification.
\<close>

lemma round_half_even_tie:
  assumes "\<bar>x - of_int n\<bar> = 1 / 2" and "even n"
  shows "round_half_even x = n"
proof -
  from assms(1) have "x = of_int n + 1 / 2 \<or> x = of_int n - 1 / 2"
    by linarith
  then show ?thesis
  proof
    assume x: "x = of_int n + 1 / 2"
    have "\<lfloor>x\<rfloor> = n"
      unfolding x by (rule floor_unique) simp_all
    then show ?thesis
      using assms(2) by (simp add: round_half_even_def Let_def x)
  next
    assume x: "x = of_int n - 1 / 2"
    have "\<lfloor>x\<rfloor> = n - 1"
      unfolding x by (rule floor_unique) simp_all
    then show ?thesis
      using assms(2) by (simp add: round_half_even_def Let_def x)
  qed
qed

lemma round64_cert:
  assumes e: "- 1022 \<le> e" "e \<le> 1022"
    and lo: "pow2 e \<le> \<bar>q\<bar>" and hi: "\<bar>q\<bar> < pow2 (e + 1)"
    and n: "\<bar>\<bar>q\<bar> - of_int n * pow2 (e - 52)\<bar> < pow2 (e - 52) / 2
            \<or> \<bar>\<bar>q\<bar> - of_int n * pow2 (e - 52)\<bar> = pow2 (e - 52) / 2 \<and> even n"
  shows "round64 q = Fin (if q < 0 then - (of_int n * pow2 (e - 52)) else of_int n * pow2 (e - 52))"
proof -
  define k where "k = e - 52"
  define m where "m = of_int n * pow2 k"
  have q: "q \<noteq> 0" using lo pow2_pos [of e] by auto
  have il: "ilog2 \<bar>q\<bar> = e" using lo hi by (rule ilog2_unique)
  have k: "max (ilog2 \<bar>q\<bar>) (- 1022) - 52 = k"
    using e by (simp add: il k_def)
  have kpos: "0 < pow2 k" by (rule pow2_pos)
  have "\<bar>q\<bar> / pow2 k - of_int n = (\<bar>q\<bar> - m) / pow2 k"
    using kpos by (simp add: diff_divide_distrib m_def)
  then have d: "\<bar>\<bar>q\<bar> / pow2 k - of_int n\<bar> = \<bar>\<bar>q\<bar> - m\<bar> / pow2 k"
    using kpos by (simp only: abs_divide abs_of_pos)
  from n have "\<bar>\<bar>q\<bar> - m\<bar> < pow2 k / 2 \<or> \<bar>\<bar>q\<bar> - m\<bar> = pow2 k / 2 \<and> even n"
    by (simp only: m_def k_def)
  then have r: "round_half_even (\<bar>q\<bar> / pow2 k) = n"
  proof
    assume "\<bar>\<bar>q\<bar> - m\<bar> < pow2 k / 2"
    then have "\<bar>\<bar>q\<bar> - m\<bar> / pow2 k < (pow2 k / 2) / pow2 k"
      using kpos by (simp only: divide_strict_right_mono)
    then have "\<bar>\<bar>q\<bar> / pow2 k - of_int n\<bar> < 1 / 2"
      using kpos by (simp add: d)
    then show ?thesis by (rule round_half_even_nearest)
  next
    assume t: "\<bar>\<bar>q\<bar> - m\<bar> = pow2 k / 2 \<and> even n"
    then have "\<bar>\<bar>q\<bar> / pow2 k - of_int n\<bar> = 1 / 2"
      using kpos by (simp add: d)
    with t show ?thesis by (simp add: round_half_even_tie)
  qed
  from n have "\<bar>\<bar>q\<bar> - m\<bar> \<le> pow2 k / 2"
    unfolding m_def k_def by linarith
  then have m_lo: "\<bar>q\<bar> - pow2 k / 2 \<le> m" and m_hi: "m \<le> \<bar>q\<bar> + pow2 k / 2"
    by linarith+
  have "pow2 k < pow2 e" by (simp add: k_def pow2_strict_mono)
  with m_lo lo kpos have m0: "0 < m" by linarith
  have "pow2 (e + 1) \<le> pow2 1023" using e by (simp add: pow2_mono)
  moreover have "pow2 k \<le> pow2 1023" using e by (simp add: k_def pow2_mono)
  moreover have "pow2 1024 = 2 * pow2 1023" using pow2_Suc [of 1023] by simp
  ultimately have m1: "m < pow2 1024" using m_hi hi kpos by linarith
  have n0: "n \<noteq> 0" using m0 by (auto simp: m_def)
  have p0: "pow2 (e - 52) \<noteq> 0" using pow2_pos [of "e - 52"] by simp
  show ?thesis
    unfolding round64_def Let_def k r
    using q m0 m1 n0 p0 unfolding m_def k_def by simp
qed

text \<open>Every integer below \<open>2^53\<close> in magnitude is a binary64 value.\<close>

lemma round64_of_int:
  assumes "\<bar>i\<bar> < 2 ^ 53"
  shows "round64 (of_int i) = Fin (of_int i)"
proof (cases "i = 0")
  case True
  then show ?thesis by (simp add: round64_def)
next
  case False
  define a :: rat where "a = \<bar>of_int i\<bar>"
  define e where "e = ilog2 a"
  define n where "n = \<bar>i\<bar> * 2 ^ nat (52 - e)"
  have ai: "a = of_int \<bar>i\<bar>" by (simp add: a_def)
  have "1 \<le> \<bar>i\<bar>" using False by linarith
  then have "(of_int 1 :: rat) \<le> of_int \<bar>i\<bar>" by (simp only: of_int_le_iff)
  then have a1: "1 \<le> a" by (simp add: ai)
  then have a0: "0 < a" by simp
  have a53: "a < pow2 53"
  proof -
    have "a = of_int \<bar>i\<bar>" by (rule ai)
    also have "\<dots> < of_int (2 ^ 53)" using assms by (simp only: of_int_less_iff)
    finally show ?thesis by (simp add: pow2_def)
  qed
  from ilog2_bounds [OF a0] have lo: "pow2 e \<le> a" and hi: "a < pow2 (e + 1)"
    by (simp_all add: e_def)
  have e0: "0 \<le> e"
  proof (rule ccontr)
    assume "\<not> 0 \<le> e"
    then have "pow2 (e + 1) \<le> pow2 0" by (simp add: pow2_mono)
    with hi a1 show False by (simp add: pow2_def)
  qed
  have e52: "e \<le> 52"
  proof (rule ccontr)
    assume "\<not> e \<le> 52"
    then have "pow2 53 \<le> pow2 e" by (simp add: pow2_mono)
    with lo a53 show False by simp
  qed
  have p: "pow2 (e - 52) = 1 / 2 ^ nat (52 - e)"
    using e52 pow2_neg_nat [of "nat (52 - e)"] by simp
  have m: "of_int n * pow2 (e - 52) = a"
    by (simp add: n_def p a_def)
  have "round64 (of_int i) =
      Fin (if (of_int i :: rat) < 0 then - (of_int n * pow2 (e - 52)) else of_int n * pow2 (e - 52))"
  proof (rule round64_cert)
    show "- 1022 \<le> e" using e0 by simp
    show "e \<le> 1022" using e52 by simp
    show "pow2 e \<le> \<bar>of_int i\<bar>" using lo by (simp add: a_def)
    show "\<bar>of_int i\<bar> < pow2 (e + 1)" using hi by (simp add: a_def)
    show "\<bar>\<bar>of_int i\<bar> - of_int n * pow2 (e - 52)\<bar> < pow2 (e - 52) / 2
        \<or> \<bar>\<bar>of_int i\<bar> - of_int n * pow2 (e - 52)\<bar> = pow2 (e - 52) / 2 \<and> even n"
      unfolding m using pow2_pos [of "e - 52"] by (simp add: a_def)
  qed
  then show ?thesis
    unfolding m by (simp add: a_def)
qed

lemma is_number_of_int: "\<bar>i\<bar> < 2 ^ 53 \<Longrightarrow> is_number (Fin (of_int i))"
  by (simp add: round64_of_int)

text \<open>
  Rounding is idempotent: what \<open>round64\<close> returns is a number, so the operators return
  numbers, and the quotient of any two values is one.
\<close>

lemma pow2_add: "pow2 (k + l) = pow2 k * pow2 l"
  by (simp add: pow2_powi power_int_add)

lemma pow2_numeral: "pow2 (numeral w) = 2 ^ numeral w"
  by (simp add: pow2_def)

lemma round_half_even_of_int: "round_half_even (of_int n) = n"
  by (rule round_half_even_nearest) simp

lemma round_half_even_bounds:
  "x - 1 / 2 \<le> of_int (round_half_even x) \<and> of_int (round_half_even x) \<le> x + 1 / 2"
proof -
  define r where "r = x - of_int \<lfloor>x\<rfloor>"
  have r: "0 \<le> r" "r < 1"
    using floor_correct [of x] by (simp_all add: r_def)
  have "round_half_even x = \<lfloor>x\<rfloor> \<and> r \<le> 1 / 2
      \<or> round_half_even x = \<lfloor>x\<rfloor> + 1 \<and> 1 / 2 \<le> r"
    unfolding round_half_even_def Let_def r_def [symmetric] by auto
  then show ?thesis
  proof
    assume a: "round_half_even x = \<lfloor>x\<rfloor> \<and> r \<le> 1 / 2"
    then have "of_int (round_half_even x) = x - r" by (simp add: r_def)
    with a r show ?thesis by simp
  next
    assume a: "round_half_even x = \<lfloor>x\<rfloor> + 1 \<and> 1 / 2 \<le> r"
    then have "of_int (round_half_even x) = x - r + 1" by (simp add: r_def)
    with a r show ?thesis by simp
  qed
qed

lemma round_half_even_le:
  assumes "x \<le> of_int u"
  shows "round_half_even x \<le> u"
proof -
  have "of_int (round_half_even x) \<le> x + 1 / 2"
    using round_half_even_bounds [of x] by simp
  with assms have "(of_int (round_half_even x) :: rat) < of_int (u + 1)"
    by simp
  then have "round_half_even x < u + 1"
    by (simp only: of_int_less_iff)
  then show ?thesis by simp
qed

lemma round_half_even_ge:
  assumes "of_int l \<le> x"
  shows "l \<le> round_half_even x"
proof -
  have "x - 1 / 2 \<le> of_int (round_half_even x)"
    using round_half_even_bounds [of x] by simp
  with assms have "(of_int (l - 1) :: rat) < of_int (round_half_even x)"
    by simp
  then have "l - 1 < round_half_even x"
    by (simp only: of_int_less_iff)
  then show ?thesis by simp
qed

lemma round64_exact:
  assumes "0 < M" and "M < pow2 1024"
    and "M = of_int n * pow2 (max (ilog2 M) (- 1022) - 52)"
  shows "round64 M = Fin M" and "round64 (- M) = Fin (- M)"
proof -
  define k where "k = max (ilog2 M) (- 1022) - 52"
  have kpos: "0 < pow2 k" by (rule pow2_pos)
  have M: "M = of_int n * pow2 k" using assms(3) by (simp add: k_def)
  then have "M / pow2 k = of_int n" using kpos by simp
  then have r: "round_half_even (M / pow2 k) = n"
    by (simp only: round_half_even_of_int)
  have m: "of_int (round_half_even (M / pow2 k)) * pow2 k = M"
    unfolding r by (rule M [symmetric])
  have a: "\<bar>M\<bar> = M" "\<bar>- M\<bar> = M" using assms(1) by simp_all
  show "round64 M = Fin M"
    unfolding round64_def Let_def a k_def [symmetric] m using assms(1,2) by simp
  show "round64 (- M) = Fin (- M)"
    unfolding round64_def Let_def a k_def [symmetric] m using assms(1,2) by simp
qed

lemma round64_idem:
  assumes "round64 q = Fin m"
  shows "round64 m = Fin m"
proof (cases "q = 0")
  case True
  with assms have "m = 0" by (simp add: round64_def)
  then show ?thesis by (simp add: round64_def)
next
  case q: False
  define a where "a = \<bar>q\<bar>"
  define c where "c = max (ilog2 a) (- 1022)"
  define k where "k = c - 52"
  define x where "x = a / pow2 k"
  define n where "n = round_half_even x"
  define M where "M = of_int n * pow2 k"
  have a0: "0 < a" using q by (simp add: a_def)
  have kpos: "0 < pow2 k" by (rule pow2_pos)
  have unfold: "round64 q =
      (if pow2 1024 \<le> M then (if q < 0 then NegInf else PosInf)
       else if M = 0 then (if q < 0 then NegZero else Fin 0)
       else Fin (if q < 0 then - M else M))"
    using q by (simp add: round64_def Let_def a_def c_def k_def x_def n_def M_def)
  from assms unfold have M1: "M < pow2 1024"
    by (auto split: if_splits)
  show ?thesis
  proof (cases "M = 0")
    case True
    with assms unfold M1 have "m = 0" by (auto split: if_splits)
    then show ?thesis by (simp add: round64_def)
  next
    case False
    with assms unfold M1 have m: "m = M \<or> m = - M"
      by (auto split: if_splits)
    have "0 \<le> x" using a0 kpos by (simp add: x_def)
    then have "0 \<le> n" unfolding n_def using round_half_even_ge [of 0 x] by simp
    moreover have "n \<noteq> 0" using False by (auto simp: M_def)
    ultimately have n0: "0 < n" by simp
    then have M0: "0 < M" using kpos by (simp add: M_def)
    have c: "- 1022 \<le> c" by (simp add: c_def)
    have "a < pow2 (ilog2 a + 1)" using ilog2_bounds [OF a0] by simp
    also have "\<dots> \<le> pow2 (c + 1)" by (rule pow2_mono) (simp add: c_def)
    also have "c + 1 = k + 53" by (simp add: k_def)
    also have "pow2 (k + 53) = pow2 k * pow2 53" by (rule pow2_add)
    finally have "x < pow2 53" using kpos by (simp add: x_def field_simps)
    then have "x \<le> of_int (2 ^ 53)" by (simp add: pow2_numeral)
    then have n53: "n \<le> 2 ^ 53" unfolding n_def by (rule round_half_even_le)
    have p52: "pow2 (k + 52) = 2 ^ 52 * pow2 k" and p53: "pow2 (k + 53) = 2 ^ 53 * pow2 k"
      by (simp_all add: pow2_add pow2_numeral)
    have "\<exists>n'. M = of_int n' * pow2 (max (ilog2 M) (- 1022) - 52)"
    proof -
      consider "n = 2 ^ 53" | "2 ^ 52 \<le> n" "n < 2 ^ 53" | "n < 2 ^ 52"
        using n53 by linarith
      then show ?thesis
      proof cases
        case 1
        then have M: "M = pow2 (k + 53)" by (simp add: M_def p53)
        have "ilog2 M = k + 53"
          by (rule ilog2_unique) (simp_all add: M pow2_strict_mono)
        then have "max (ilog2 M) (- 1022) - 52 = k + 1"
          using c by (simp add: k_def)
        moreover have "M = of_int (2 ^ 52) * pow2 (k + 1)"
          by (simp add: M p53 pow2_Suc)
        ultimately show ?thesis by metis
      next
        case 2
        have "(of_int (2 ^ 52) :: rat) \<le> of_int n" using 2(1) by (simp only: of_int_le_iff)
        then have "(2 ^ 52 :: rat) \<le> of_int n" by simp
        then have "2 ^ 52 * pow2 k \<le> of_int n * pow2 k"
          using kpos by (simp only: mult_right_mono less_imp_le)
        then have lo: "pow2 (k + 52) \<le> M"
          by (simp only: M_def p52)
        have "(of_int n :: rat) < of_int (2 ^ 53)" using 2(2) by (simp only: of_int_less_iff)
        then have "(of_int n :: rat) < 2 ^ 53" by simp
        then have "of_int n * pow2 k < 2 ^ 53 * pow2 k"
          using kpos by (rule mult_strict_right_mono)
        moreover have "k + 52 + 1 = k + 53" by simp
        ultimately have hi: "M < pow2 (k + 52 + 1)"
          by (simp only: M_def p53)
        have "ilog2 M = k + 52" using lo hi by (rule ilog2_unique)
        then have "max (ilog2 M) (- 1022) - 52 = k"
          using c by (simp add: k_def)
        then show ?thesis using M_def by metis
      next
        case 3
        have sub: "ilog2 a < - 1022"
        proof (rule ccontr)
          assume "\<not> ilog2 a < - 1022"
          then have ca: "c = ilog2 a" by (simp add: c_def)
          have "pow2 c \<le> a" using ilog2_bounds [OF a0] by (simp add: ca)
          moreover have "pow2 c = 2 ^ 52 * pow2 k"
            using p52 by (simp add: k_def)
          ultimately have "of_int (2 ^ 52) \<le> x" using kpos by (simp add: x_def field_simps)
          then have "2 ^ 52 \<le> n" unfolding n_def by (rule round_half_even_ge)
          with 3 show False by simp
        qed
        then have k: "k = - 1074" by (simp add: k_def c_def)
        have "(of_int n :: rat) < of_int (2 ^ 52)" using 3 by (simp only: of_int_less_iff)
        then have "(of_int n :: rat) < 2 ^ 52" by simp
        then have "of_int n * pow2 k < 2 ^ 52 * pow2 k"
          using kpos by (rule mult_strict_right_mono)
        then have "M < pow2 (k + 52)" by (simp only: M_def p52)
        then have lt: "M < pow2 (- 1022)" by (simp add: k)
        have "ilog2 M < - 1022"
        proof (rule ccontr)
          assume "\<not> ilog2 M < - 1022"
          then have "pow2 (- 1022) \<le> pow2 (ilog2 M)" by (simp add: pow2_mono)
          also have "\<dots> \<le> M" using ilog2_bounds [OF M0] by simp
          finally show False using lt by simp
        qed
        then have "max (ilog2 M) (- 1022) - 52 = k" by (simp add: k)
        then show ?thesis using M_def by metis
      qed
    qed
    then obtain n' where "M = of_int n' * pow2 (max (ilog2 M) (- 1022) - 52)" ..
    from round64_exact [OF M0 M1 this] m show ?thesis by auto
  qed
qed

lemma is_number_round64: "is_number (round64 q)"
  by (cases "round64 q") (simp_all add: round64_idem)

lemma round64_0: "round64 0 = Fin 0"
  by (simp add: round64_def)

lemma is_number_num_div: "is_number (num_div x y)"
  by (simp add: num_div_def Let_def signed_zero_def signed_inf_def is_number_round64 round64_0)

lemma is_number_num_add: "is_number x \<Longrightarrow> is_number y \<Longrightarrow> is_number (num_add x y)"
  by (simp add: num_add_def signed_zero_def is_number_round64 round64_0)

section \<open>The constants and inputs used below\<close>

text \<open>The threshold and the two bounds that \<open>generateRow\<close> computes on every call.\<close>

lemma threshold_val: "THRESHOLD = Fin (3602879701896397 / 72057594037927936)"
  unfolding THRESHOLD_def
  using round64_cert [of "-5" "5 / 100" 7205759403792794] by (simp add: pow2_def)

lemma upper_bound_val: "num_add (Fin 1) THRESHOLD = Fin (4728779608739021 / 4503599627370496)"
  unfolding threshold_val
  using round64_cert [of 0 "1 + 3602879701896397 / 72057594037927936" 4728779608739021]
  by (simp add: num_add_def pow2_def)

lemma lower_bound_val: "num_sub (Fin 1) THRESHOLD = Fin (4278419646001971 / 4503599627370496)"
  unfolding threshold_val
  using round64_cert [of "-1" "1 - 3602879701896397 / 72057594037927936" 8556839292003942]
  by (simp add: num_sub_def num_add_def pow2_def)

text \<open>Mid-prices of three quotes.\<close>

lemma mid_99: "calculateMidPrice (quote (Fin 100) (Fin 98) t) = Fin 99"
  using round64_cert [of 7 198 "198 * 2 ^ 45"] round64_cert [of 6 99 "99 * 2 ^ 46"]
  by (simp add: calculateMidPrice_def quote_def num_add_def num_div_def pow2_def)

lemma mid_0: "calculateMidPrice (quote (Fin 0) (Fin 0) t) = Fin 0"
  by (simp add: calculateMidPrice_def quote_def num_add_def num_div_def signed_zero_def)

lemma mid_neg: "calculateMidPrice (quote (Fin (- 4)) (Fin (- 2)) t) = Fin (- 3)"
  using round64_cert [of 2 "- 6" "6 * 2 ^ 50"] round64_cert [of 1 "- 3" "3 * 2 ^ 51"]
  by (simp add: calculateMidPrice_def quote_def num_add_def num_div_def pow2_def)

lemma timestamp_quote: "ServerRespond.timestamp (quote ask bid t) = Date t"
  by (simp add: quote_def)

text \<open>
  Ten copies of \<^verbatim>\<open>0.1\<close> summed from the left, as \<^verbatim>\<open>reduce\<close> does, and the sum
  divided by ten.
\<close>

lemma is_number_tenth: "is_number tenth"
  unfolding tenth_def
  using round64_cert [of "-4" "3602879701896397 / 36028797018963968" 7205759403792794]
  by (simp add: pow2_def)

lemma tenth_sum:
  "foldl num_add tenth (replicate 9 tenth) = Fin (9007199254740991 / 9007199254740992)"
proof -
  have s2: "num_add tenth tenth = Fin (3602879701896397 / 18014398509481984)"
    using round64_cert [of "-3"
        "3602879701896397 / 36028797018963968 +
         3602879701896397 / 36028797018963968"
        7205759403792794]
    by (simp add: tenth_def num_add_def pow2_def)
  have s3: "num_add (Fin (3602879701896397 / 18014398509481984)) tenth =
      Fin (1351079888211149 / 4503599627370496)"
    using round64_cert [of "-2"
        "3602879701896397 / 18014398509481984 +
         3602879701896397 / 36028797018963968"
        5404319552844596]
    by (simp add: tenth_def num_add_def pow2_def)
  have s4: "num_add (Fin (1351079888211149 / 4503599627370496)) tenth =
      Fin (3602879701896397 / 9007199254740992)"
    using round64_cert [of "-2"
        "1351079888211149 / 4503599627370496 +
         3602879701896397 / 36028797018963968"
        7205759403792794]
    by (simp add: tenth_def num_add_def pow2_def)
  have s5: "num_add (Fin (3602879701896397 / 9007199254740992)) tenth = Fin (1 / 2)"
    using round64_cert [of "-1"
        "3602879701896397 / 9007199254740992 +
         3602879701896397 / 36028797018963968"
        4503599627370496]
    by (simp add: tenth_def num_add_def pow2_def)
  have s6: "num_add (Fin (1 / 2)) tenth = Fin (5404319552844595 / 9007199254740992)"
    using round64_cert [of "-1" "1 / 2 + 3602879701896397 / 36028797018963968" 5404319552844595]
    by (simp add: tenth_def num_add_def pow2_def)
  have s7: "num_add (Fin (5404319552844595 / 9007199254740992)) tenth =
      Fin (3152519739159347 / 4503599627370496)"
    using round64_cert [of "-1"
        "5404319552844595 / 9007199254740992 +
         3602879701896397 / 36028797018963968"
        6305039478318694]
    by (simp add: tenth_def num_add_def pow2_def)
  have s8: "num_add (Fin (3152519739159347 / 4503599627370496)) tenth =
      Fin (7205759403792793 / 9007199254740992)"
    using round64_cert [of "-1"
        "3152519739159347 / 4503599627370496 +
         3602879701896397 / 36028797018963968"
        7205759403792793]
    by (simp add: tenth_def num_add_def pow2_def)
  have s9: "num_add (Fin (7205759403792793 / 9007199254740992)) tenth =
      Fin (2026619832316723 / 2251799813685248)"
    using round64_cert [of "-1"
        "7205759403792793 / 9007199254740992 +
         3602879701896397 / 36028797018963968"
        8106479329266892]
    by (simp add: tenth_def num_add_def pow2_def)
  have s10: "num_add (Fin (2026619832316723 / 2251799813685248)) tenth =
      Fin (9007199254740991 / 9007199254740992)"
    using round64_cert [of "-1"
        "2026619832316723 / 2251799813685248 +
         3602879701896397 / 36028797018963968"
        9007199254740991]
    by (simp add: tenth_def num_add_def pow2_def)
  show ?thesis
    by (simp add: numeral_eq_Suc s2 s3 s4 s5 s6 s7 s8 s9 s10)
qed

lemma tenth_average:
  "num_div (Fin (9007199254740991 / 9007199254740992)) (Fin 10) =
      Fin (7205759403792793 / 72057594037927936)"
  using round64_cert [of "-4" "9007199254740991 / 9007199254740992 / 10" 7205759403792793]
  by (simp add: num_div_def pow2_def)

section \<open>The moving-average window\<close>

text \<open>
  From a queue within the capacity, a run of pushes leaves the last
  \<open>MOVING_AVERAGE_WINDOW\<close> entries of the old queue followed by the pushed ratios.
\<close>

lemma pushes_drop:
  "length queue \<le> MOVING_AVERAGE_WINDOW \<Longrightarrow>
     pushes queue rs = drop (length queue + length rs - MOVING_AVERAGE_WINDOW) (queue @ rs)"
proof (induction rs arbitrary: queue)
  case Nil
  then show ?case by simp
next
  case (Cons r rs)
  show ?case
  proof (cases "length queue < MOVING_AVERAGE_WINDOW")
    case True
    then have q: "snd (updateMovingAverage r queue) = queue @ [r]"
      by (simp add: snd_updateMovingAverage)
    from True have "length (queue @ [r]) \<le> MOVING_AVERAGE_WINDOW"
      by simp
    from Cons.IH [OF this] show ?thesis
      by (simp add: q)
  next
    case False
    with Cons.prems have len: "length queue = MOVING_AVERAGE_WINDOW"
      by simp
    then obtain x xs where queue: "queue = x # xs"
      by (cases queue) (auto simp: MOVING_AVERAGE_WINDOW_def)
    have w: "MOVING_AVERAGE_WINDOW = Suc (length xs)"
      using len by (simp add: queue)
    have q: "snd (updateMovingAverage r queue) = xs @ [r]"
      by (simp add: snd_updateMovingAverage queue w)
    have "length (xs @ [r]) \<le> MOVING_AVERAGE_WINDOW"
      by (simp add: w)
    from Cons.IH [OF this]
    have "pushes (xs @ [r]) rs = drop (length rs) (xs @ r # rs)"
      by (simp add: w)
    moreover have "drop (length queue + length (r # rs) - MOVING_AVERAGE_WINDOW)
        (queue @ r # rs) = drop (length rs) (xs @ r # rs)"
      by (simp add: w queue)
    ultimately show ?thesis
      by (simp add: q)
  qed
qed

lemma pushes_replicate:
  "pushes [] (replicate MOVING_AVERAGE_WINDOW r) = replicate MOVING_AVERAGE_WINDOW r"
  using pushes_drop [of "[]" "replicate MOVING_AVERAGE_WINDOW r"] by simp

lemma window_replicate:
  "snd (updateMovingAverage r (replicate MOVING_AVERAGE_WINDOW r)) =
     replicate MOVING_AVERAGE_WINDOW r"
  by (simp add: snd_updateMovingAverage MOVING_AVERAGE_WINDOW_def replicate_append_same)

lemma average_replicate:
  "fst (updateMovingAverage r (replicate MOVING_AVERAGE_WINDOW r)) =
     Inr (num_div (foldl num_add r (replicate 9 r)) (Fin 10))"
  unfolding fst_updateMovingAverage window_replicate
  by (simp add: MOVING_AVERAGE_WINDOW_def numeral_eq_Suc)

lemma last_window: "last (snd (updateMovingAverage r queue)) = r"
  by (cases queue) (auto simp: snd_updateMovingAverage MOVING_AVERAGE_WINDOW_def)

lemma num_div_1: "is_number v \<Longrightarrow> num_div v (Fin 1) = v"
  by (cases v) (auto simp: num_div_def signed_zero_def signed_inf_def)

lemma foldl_num_add_same:
  "num_add r r = r \<Longrightarrow> foldl num_add r (replicate n r) = r"
  by (induction n) simp_all

lemma foldl_num_add_exact:
  assumes "q \<noteq> 0"
  shows "1 \<le> j \<Longrightarrow> \<forall>k\<in>{1..j + n}. is_number (Fin (of_nat k * q)) \<Longrightarrow>
     foldl num_add (Fin (of_nat j * q)) (replicate n (Fin q)) = Fin (of_nat (j + n) * q)"
proof (induction n arbitrary: j)
  case 0
  then show ?case by simp
next
  case (Suc n)
  from Suc.prems(2) have "is_number (Fin (of_nat (Suc j) * q))"
    by (rule bspec [where x = "Suc j"]) simp
  then have r: "round64 (of_nat j * q + q) = Fin (of_nat (Suc j) * q)"
    by (simp add: algebra_simps)
  have "of_nat j * q \<noteq> 0"
    using assms Suc.prems(1) by simp
  then have step: "num_add (Fin (of_nat j * q)) (Fin q) = Fin (of_nat (Suc j) * q)"
    using assms r by (simp add: num_add_def)
  have "foldl num_add (Fin (of_nat (Suc j) * q)) (replicate n (Fin q)) =
      Fin (of_nat (Suc j + n) * q)"
    using Suc.prems by (intro Suc.IH) simp_all
  then show ?case
    by (simp add: step)
qed

text \<open>
  C3. For any sequence \<open>rs\<close> of pushes starting from the empty queue (the initial value
  of \<^verbatim>\<open>movingAverageQueue\<close>), the queue left behind is never longer than the capacity,
  which is 10; it is exactly the last 10 ratios pushed, in the order they arrived; and
  one more push either appends the ratio (no eviction) or drops the head, the oldest
  entry, and appends the ratio (one eviction). Since \<open>rs\<close> is arbitrary the bound holds
  after every push of a run.
\<close>

theorem window_bounded_fifo:
  "length (pushes [] rs) \<le> MOVING_AVERAGE_WINDOW
     \<and> MOVING_AVERAGE_WINDOW = 10
     \<and> pushes [] rs = drop (length rs - MOVING_AVERAGE_WINDOW) rs
     \<and> snd (updateMovingAverage r (pushes [] rs)) =
         (if length (pushes [] rs) < MOVING_AVERAGE_WINDOW then pushes [] rs @ [r]
          else tl (pushes [] rs) @ [r])"
proof -
  have d: "pushes [] rs = drop (length rs - MOVING_AVERAGE_WINDOW) rs"
    using pushes_drop [of "[]" rs] by simp
  have l: "length (pushes [] rs) \<le> MOVING_AVERAGE_WINDOW"
    unfolding d by simp
  have "pushes [] rs \<noteq> []" if "\<not> length (pushes [] rs) < MOVING_AVERAGE_WINDOW"
    using that by (auto simp: MOVING_AVERAGE_WINDOW_def)
  then have s: "snd (updateMovingAverage r (pushes [] rs)) =
       (if length (pushes [] rs) < MOVING_AVERAGE_WINDOW then pushes [] rs @ [r]
        else tl (pushes [] rs) @ [r])"
    by (simp add: snd_updateMovingAverage)
  show ?thesis
    using d l s by (simp add: MOVING_AVERAGE_WINDOW_def)
qed

text \<open>
  C10. Whatever the queue and the ratio, the array that \<^verbatim>\<open>reduce\<close> is applied to is
  not empty: its length is at least 1 and its last entry is the ratio just pushed. So
  \<^verbatim>\<open>reduce\<close> returns the sum and does not raise, the divisor (the length) is not
  zero, and \<open>updateMovingAverage\<close> returns a number. The last conjunct is the branch that
  is never reached: \<^verbatim>\<open>reduce\<close> of the empty array raises \<^verbatim>\<open>TypeError\<close>.
\<close>

theorem reduce_window_nonempty:
  "snd (updateMovingAverage r queue) \<noteq> []
     \<and> 1 \<le> length (snd (updateMovingAverage r queue))
     \<and> last (snd (updateMovingAverage r queue)) = r
     \<and> reduce num_add (snd (updateMovingAverage r queue)) =
         Inr (foldl num_add (hd (snd (updateMovingAverage r queue)))
                (tl (snd (updateMovingAverage r queue))))
     \<and> fst (updateMovingAverage r queue) =
         Inr (num_div (foldl num_add (hd (snd (updateMovingAverage r queue)))
                         (tl (snd (updateMovingAverage r queue))))
                (Fin (of_nat (length (snd (updateMovingAverage r queue))))))
     \<and> \<not> is_zero (Fin (of_nat (length (snd (updateMovingAverage r queue)))))
     \<and> reduce num_add [] = Inl TypeError"
proof -
  obtain x xs where q: "snd (updateMovingAverage r queue) = x # xs"
    using window_nonempty [of r queue] by (cases "snd (updateMovingAverage r queue)") auto
  have l: "last (snd (updateMovingAverage r queue)) = r"
    by (cases queue) (auto simp: snd_updateMovingAverage MOVING_AVERAGE_WINDOW_def)
  have f: "fst (updateMovingAverage r queue) =
      Inr (num_div (foldl num_add x xs) (Fin (of_nat (length (x # xs)))))"
    using fst_updateMovingAverage [of r queue] by (simp add: q Let_def)
  show ?thesis
    using l f unfolding q by simp
qed

text \<open>
  C7. Pushing \<open>v\<close> into the empty queue returns \<open>v\<close> as the average and leaves \<open>[v]\<close>,
  for every value \<open>v\<close> a number can have (\<open>is_number\<close>). Every ratio is such a value,
  so the first call of \<open>generateRow\<close> returns a row whose moving average is its ratio.
  The returned value is the same value as \<open>v\<close>; for NaN this is not the \<^verbatim>\<open>===\<close> of
  the language, which NaN fails against itself.
\<close>

theorem first_push_average:
  "(is_number v \<longrightarrow> updateMovingAverage v [] = (Inr v, [v]))
     \<and> (\<exists>row. generateRow (a # b # rest) [] = (Inr row, [ratio row])
          \<and> moving_average row = ratio row)"
proof -
  have 1: "updateMovingAverage v [] = (Inr v, [v])" if "is_number v" for v
    using that by (simp add: updateMovingAverage_def MOVING_AVERAGE_WINDOW_def num_div_1)
  let ?r = "num_div (calculateMidPrice a) (calculateMidPrice b)"
  have "updateMovingAverage ?r [] = (Inr ?r, [?r])"
    by (rule 1) (rule is_number_num_div)
  then have w: "snd (updateMovingAverage ?r []) = [?r]"
    by simp
  have avg: "num_div ?r (Fin 1) = ?r"
    by (rule num_div_1) (rule is_number_num_div)
  have "\<exists>row. generateRow (a # b # rest) [] = (Inr row, [ratio row])
      \<and> moving_average row = ratio row"
    by (simp add: generateRow_pair Let_def w avg)
  with 1 show ?thesis by simp
qed

text \<open>The theorem at \<^verbatim>\<open>0.1\<close>.\<close>

theorem first_push_average_witness:
  "is_number tenth \<and> updateMovingAverage tenth [] = (Inr tenth, [tenth])"
  using first_push_average [of tenth] is_number_tenth by simp

text \<open>
  As stated, for every \<open>r\<close>, the claim about capacity + 1 pushes of a constant fails:
  with \<open>r\<close> the number \<^verbatim>\<open>0.1\<close> the ten pushes leave ten copies of \<open>r\<close>, and the eleventh
  returns \<^verbatim>\<open>0.09999999999999999\<close>, the sum \<^verbatim>\<open>0.9999999999999999\<close> divided by ten.
\<close>

theorem constant_pushes_average_counterexample:
  "is_number tenth
     \<and> pushes [] (replicate MOVING_AVERAGE_WINDOW tenth) = replicate 10 tenth
     \<and> updateMovingAverage tenth (replicate 10 tenth) =
         (Inr (Fin (7205759403792793 / 72057594037927936)), replicate 10 tenth)
     \<and> Fin (7205759403792793 / 72057594037927936) \<noteq> tenth"
proof -
  have w: "pushes [] (replicate MOVING_AVERAGE_WINDOW tenth) = replicate 10 tenth"
    using pushes_replicate [of tenth] by (simp add: MOVING_AVERAGE_WINDOW_def)
  have "fst (updateMovingAverage tenth (replicate 10 tenth)) =
      Inr (Fin (7205759403792793 / 72057594037927936))"
    using average_replicate [of tenth]
    by (simp add: MOVING_AVERAGE_WINDOW_def tenth_sum tenth_average)
  moreover have "snd (updateMovingAverage tenth (replicate 10 tenth)) = replicate 10 tenth"
    using window_replicate [of tenth] by (simp add: MOVING_AVERAGE_WINDOW_def)
  ultimately have u: "updateMovingAverage tenth (replicate 10 tenth) =
      (Inr (Fin (7205759403792793 / 72057594037927936)), replicate 10 tenth)"
    by (simp add: prod_eq_iff)
  have "Fin (7205759403792793 / 72057594037927936) \<noteq> tenth"
    by (simp add: tenth_def)
  with w u is_number_tenth show ?thesis by simp
qed

text \<open>
  C8, amended. Starting from the empty queue, push \<open>r\<close> capacity times and once more.
  If the multiples \<open>k * r\<close> for \<open>k\<close> from 1 to the capacity are binary64 values, so that
  no partial sum is rounded, the last push returns \<open>r\<close> and leaves capacity copies of
  \<open>r\<close>. An infinity, NaN and the two zeros satisfy the premise (\<open>val\<close> is 0 there).
\<close>

theorem constant_pushes_average_exact:
  assumes "\<forall>k\<in>{1..MOVING_AVERAGE_WINDOW}. is_number (Fin (of_nat k * val r))"
  shows "updateMovingAverage r (pushes [] (replicate MOVING_AVERAGE_WINDOW r)) =
     (Inr r, replicate MOVING_AVERAGE_WINDOW r)"
proof -
  have avg: "num_div (foldl num_add r (replicate 9 r)) (Fin 10) = r"
  proof (cases "\<exists>q. r = Fin q \<and> q \<noteq> 0")
    case True
    then obtain q where r: "r = Fin q" and q: "q \<noteq> 0" by auto
    from assms have all: "\<forall>k\<in>{1..1 + 9}. is_number (Fin (of_nat k * q))"
      by (simp add: r MOVING_AVERAGE_WINDOW_def)
    have "foldl num_add (Fin (of_nat 1 * q)) (replicate 9 (Fin q)) = Fin (of_nat (1 + 9) * q)"
      using q _ all by (rule foldl_num_add_exact) simp
    then have s: "foldl num_add (Fin q) (replicate 9 (Fin q)) = Fin (10 * q)"
      by simp
    have "is_number (Fin (of_nat 1 * q))"
      using all by (simp del: of_nat_1 One_nat_def)
    then have "round64 q = Fin q" by simp
    then show ?thesis
      using q by (simp add: r s num_div_def)
  next
    case False
    then have "num_add r r = r"
      by (cases r) (auto simp: num_add_def signed_zero_def)
    then have "foldl num_add r (replicate 9 r) = r"
      by (rule foldl_num_add_same)
    moreover have "num_div r (Fin 10) = r"
      using False by (cases r) (auto simp: num_div_def signed_zero_def signed_inf_def)
    ultimately show ?thesis by simp
  qed
  show ?thesis
    unfolding pushes_replicate
    using average_replicate [of r] window_replicate [of r]
    by (simp add: avg prod_eq_iff)
qed

text \<open>The theorem at \<open>r = 3\<close>, whose multiples up to 30 are integers.\<close>

theorem constant_pushes_average_exact_witness:
  "is_number (Fin 3)
     \<and> is_number (Fin 6)
     \<and> is_number (Fin 9)
     \<and> is_number (Fin 12)
     \<and> is_number (Fin 15)
     \<and> is_number (Fin 18)
     \<and> is_number (Fin 21)
     \<and> is_number (Fin 24)
     \<and> is_number (Fin 27)
     \<and> is_number (Fin 30)
     \<and> updateMovingAverage (Fin 3) (pushes [] (replicate MOVING_AVERAGE_WINDOW (Fin 3))) =
         (Inr (Fin 3), replicate MOVING_AVERAGE_WINDOW (Fin 3))"
proof -
  have n: "is_number (Fin (of_int (int k * 3)))" if "k \<in> {1..MOVING_AVERAGE_WINDOW}" for k
  proof (rule is_number_of_int)
    show "\<bar>int k * 3\<bar> < 2 ^ 53"
      using that by (simp add: MOVING_AVERAGE_WINDOW_def)
  qed
  have h: "\<forall>k\<in>{1..MOVING_AVERAGE_WINDOW}. is_number (Fin (of_nat k * val (Fin 3)))"
    using n by simp
  have "is_number (Fin 3)" "is_number (Fin 6)" "is_number (Fin 9)" "is_number (Fin 12)" "is_number (Fin 15)" "is_number (Fin 18)" "is_number (Fin 21)" "is_number (Fin 24)" "is_number (Fin 27)" "is_number (Fin 30)"
    using n [of 1] n [of 2] n [of 3] n [of 4] n [of 5] n [of 6] n [of 7] n [of 8] n [of 9] n [of 10]
    by (simp_all add: MOVING_AVERAGE_WINDOW_def)
  with constant_pushes_average_exact [OF h] show ?thesis
    by simp
qed

section \<open>The signal classifier\<close>

lemma generateSignal_None_iff:
  "generateSignal r avg ub lb = None \<longleftrightarrow> \<not> (num_gt r ub \<or> num_lt r lb)"
  by (auto simp: generateSignal_def)

text \<open>
  C2. For every ratio, average and pair of bounds, \<open>generateSignal\<close> is the
  specification's list of rules tried in order with the first match winning: SELL,
  then BUY, then HOLD, and no signal when no rule matches. The comparisons are strict:
  no number is above or below itself, so with the upper bound not below the lower one a
  ratio equal to either bound gives no signal.
\<close>

theorem generateSignal_rule_order:
  "generateSignal r avg ub lb = spec_classify r avg ub lb
     \<and> \<not> num_gt ub ub \<and> \<not> num_lt lb lb
     \<and> (\<not> num_lt ub lb \<longrightarrow>
          generateSignal ub avg ub lb = None \<and> generateSignal lb avg ub lb = None)"
  by (simp add: generateSignal_def spec_classify_def num_gt_irrefl num_lt_irrefl num_gt_def)

text \<open>The theorem at the bounds 1 and 2 with average 3.\<close>

theorem generateSignal_rule_order_witness:
  "\<not> num_lt (Fin 2) (Fin 1)
     \<and> generateSignal (Fin 2) (Fin 3) (Fin 2) (Fin 1) = None
     \<and> generateSignal (Fin 1) (Fin 3) (Fin 2) (Fin 1) = None"
  using generateSignal_rule_order [of "Fin 2" "Fin 3" "Fin 2" "Fin 1"]
  by (simp add: generateSignal_def num_gt_def)

section \<open>The row\<close>

text \<open>
  C4. For an array of at least two quotes \<open>generateRow\<close> returns a row, and its
  \<open>trigger_alert\<close> is the ratio when the ratio is above the upper bound or below the
  lower bound of the row, and absent otherwise. The condition is on the ratio and the
  bounds only.
\<close>

theorem trigger_alert_breach:
  "\<exists>row queue'. generateRow (a # b # rest) queue = (Inr row, queue')
     \<and> ratio row = num_div (calculateMidPrice a) (calculateMidPrice b)
     \<and> upper_bound row = num_add (Fin 1) THRESHOLD
     \<and> lower_bound row = num_sub (Fin 1) THRESHOLD
     \<and> trigger_alert row =
         (if num_gt (ratio row) (upper_bound row) \<or> num_lt (ratio row) (lower_bound row)
          then Some (ratio row) else None)"
  by (simp add: generateRow_pair Let_def)

text \<open>
  C9. For an array of at least two quotes \<open>generateRow\<close> returns a row whose ratio is
  the quotient of the two mid-prices and whose bounds are \<open>1 + THRESHOLD\<close> and
  \<open>1 - THRESHOLD\<close>. In that row \<open>trigger_alert\<close> is present exactly when \<open>signal\<close> is,
  and each is present exactly when that quotient is strictly above the upper bound or
  strictly below the lower bound; when present, \<open>trigger_alert\<close> is the ratio and
  \<open>signal\<close> is what the classifier returns for the ratio, the row's moving average and
  the bounds.
\<close>

theorem trigger_alert_iff_signal:
  "\<exists>row queue'. generateRow (a # b # rest) queue = (Inr row, queue')
     \<and> ratio row = num_div (calculateMidPrice a) (calculateMidPrice b)
     \<and> upper_bound row = num_add (Fin 1) THRESHOLD
     \<and> lower_bound row = num_sub (Fin 1) THRESHOLD
     \<and> signal row =
         generateSignal (ratio row) (moving_average row) (upper_bound row) (lower_bound row)
     \<and> (trigger_alert row \<noteq> None) = (signal row \<noteq> None)
     \<and> (signal row \<noteq> None) =
         (num_gt (num_div (calculateMidPrice a) (calculateMidPrice b))
            (num_add (Fin 1) THRESHOLD)
          \<or> num_lt (num_div (calculateMidPrice a) (calculateMidPrice b))
            (num_sub (Fin 1) THRESHOLD))
     \<and> (trigger_alert row \<noteq> None) =
         (num_gt (num_div (calculateMidPrice a) (calculateMidPrice b))
            (num_add (Fin 1) THRESHOLD)
          \<or> num_lt (num_div (calculateMidPrice a) (calculateMidPrice b))
            (num_sub (Fin 1) THRESHOLD))
     \<and> (trigger_alert row \<noteq> None \<and> signal row \<noteq> None
          \<or> trigger_alert row = None \<and> signal row = None)
     \<and> (trigger_alert row = Some (ratio row) \<or> trigger_alert row = None)"
  by (simp add: generateRow_pair Let_def generateSignal_None_iff del: not_None_eq)

text \<open>
  C5. When the two quotes carry valid dates, with time values \<open>x\<close> and \<open>y\<close>, the row's
  timestamp has the time value \<open>max x y\<close>: it is the first quote's date when that is
  strictly later and the second quote's otherwise. (An invalid date has the time value
  NaN and is neither earlier nor later than any date.)
\<close>

theorem timestamp_latest:
  assumes "valueOf (ServerRespond.timestamp a) = Fin x"
    and "valueOf (ServerRespond.timestamp b) = Fin y"
  shows "\<exists>row queue'. generateRow (a # b # rest) queue = (Inr row, queue')
     \<and> valueOf (Row.timestamp row) = Fin (max x y)
     \<and> Row.timestamp row =
         (if y < x then ServerRespond.timestamp a else ServerRespond.timestamp b)"
  using assms by (simp add: generateRow_pair Let_def date_gt_def num_gt_def max_def)

text \<open>The theorem at the time values 1000 and 2000.\<close>

theorem timestamp_latest_witness:
  "valueOf (ServerRespond.timestamp (quote (Fin 100) (Fin 98) (Fin 1000))) = Fin 1000
     \<and> valueOf (ServerRespond.timestamp (quote (Fin 90) (Fin 88) (Fin 2000))) = Fin 2000
     \<and> (\<exists>row queue'.
          generateRow [quote (Fin 100) (Fin 98) (Fin 1000), quote (Fin 90) (Fin 88) (Fin 2000)] []
            = (Inr row, queue')
          \<and> valueOf (Row.timestamp row) = Fin 2000
          \<and> Row.timestamp row = Date (Fin 2000))"
proof -
  have a: "valueOf (ServerRespond.timestamp (quote (Fin 100) (Fin 98) (Fin 1000))) = Fin 1000"
    by (simp add: quote_def)
  have b: "valueOf (ServerRespond.timestamp (quote (Fin 90) (Fin 88) (Fin 2000))) = Fin 2000"
    by (simp add: quote_def)
  have "ServerRespond.timestamp (quote (Fin 90) (Fin 88) (Fin 2000)) = Date (Fin 2000)"
    by (simp add: quote_def)
  with timestamp_latest [OF a b, of "[]" "[]"] a b show ?thesis
    by simp
qed

section \<open>Errors\<close>

lemma num_div_zero_not_finite: "is_zero y \<Longrightarrow> \<not> isFinite (num_div x y)"
  by (cases x; cases y) (auto simp: num_div_def signed_inf_def)

text \<open>
  As stated, the claim that the mid-price operation rejects a negative or non-finite
  price with \<open>InvalidQuote\<close> fails: for the prices -4 and -2 the code returns -3, and
  for an infinite ask price it returns Infinity, where the specification fails.
\<close>

theorem calculateMidPrice_InvalidQuote_counterexample:
  "calculateMidPrice (quote (Fin (- 4)) (Fin (- 2)) (Fin 1000)) = Fin (- 3)
     \<and> spec_midPrice (quote (Fin (- 4)) (Fin (- 2)) (Fin 1000)) = Inl InvalidQuote
     \<and> calculateMidPrice (quote PosInf (Fin 98) (Fin 1000)) = PosInf
     \<and> spec_midPrice (quote PosInf (Fin 98) (Fin 1000)) = Inl InvalidQuote"
proof -
  have "calculateMidPrice (quote PosInf (Fin 98) (Fin 1000)) = PosInf"
    by (simp add: calculateMidPrice_def quote_def num_add_def num_div_def signed_inf_def)
  then show ?thesis
    by (simp add: mid_neg) (simp add: spec_midPrice_def quote_def)
qed

text \<open>
  C6, amended. For every quote the mid-price operation returns
  \<^verbatim>\<open>(ask_price + bid_price) / 2\<close> in binary64 arithmetic; it reads no state and
  cannot fail, so no price is rejected. For finite prices that are not below zero this
  is the result the specification describes.
\<close>

theorem calculateMidPrice_total:
  "calculateMidPrice data =
       num_div (num_add (price (top_ask data)) (price (top_bid data))) (Fin 2)
     \<and> (isFinite (price (top_ask data)) \<and> isFinite (price (top_bid data))
          \<and> \<not> num_lt (price (top_ask data)) (Fin 0) \<and> \<not> num_lt (price (top_bid data)) (Fin 0)
        \<longrightarrow> spec_midPrice data = Inr (calculateMidPrice data))"
  by (simp add: calculateMidPrice_def spec_midPrice_def Let_def)

text \<open>The theorem at the prices 100 and 98.\<close>

theorem calculateMidPrice_total_witness:
  "isFinite (price (top_ask (quote (Fin 100) (Fin 98) (Fin 1000))))
     \<and> isFinite (price (top_bid (quote (Fin 100) (Fin 98) (Fin 1000))))
     \<and> \<not> num_lt (price (top_ask (quote (Fin 100) (Fin 98) (Fin 1000)))) (Fin 0)
     \<and> \<not> num_lt (price (top_bid (quote (Fin 100) (Fin 98) (Fin 1000)))) (Fin 0)
     \<and> spec_midPrice (quote (Fin 100) (Fin 98) (Fin 1000)) = Inr (Fin 99)"
  using calculateMidPrice_total [of "quote (Fin 100) (Fin 98) (Fin 1000)"]
  by (simp add: mid_99) (simp add: quote_def)

text \<open>
  As stated, the claim that a zero second mid-price fails with \<open>DivisionByZero\<close> and
  leaves the window unchanged fails: with mid-prices 99 and 0 the call returns a row
  whose ratio and moving average are Infinity, and Infinity is in the queue afterwards.
\<close>

theorem generateRow_DivisionByZero_counterexample:
  "calculateMidPrice (quote (Fin 0) (Fin 0) (Fin 2000)) = Fin 0
     \<and> spec_ratio (Fin 99) (Fin 0) = Inl DivisionByZero
     \<and> generateRow [quote (Fin 100) (Fin 98) (Fin 1000), quote (Fin 0) (Fin 0) (Fin 2000)] [] =
         (Inr \<lparr> price_abc = Fin 99, price_def = Fin 0, ratio = PosInf,
                timestamp = Date (Fin 2000),
                upper_bound = Fin (4728779608739021 / 4503599627370496),
                lower_bound = Fin (4278419646001971 / 4503599627370496),
                trigger_alert = Some PosInf, moving_average = PosInf,
                signal = Some HOLD \<rparr>,
          [PosInf])"
proof -
  have r: "num_div (Fin 99) (Fin 0) = PosInf"
    by (simp add: num_div_def signed_inf_def)
  have w: "snd (updateMovingAverage PosInf []) = [PosInf]"
    by (simp add: snd_updateMovingAverage MOVING_AVERAGE_WINDOW_def)
  have avg: "num_div PosInf (Fin 1) = PosInf"
    by (simp add: num_div_def signed_inf_def)
  have "generateSignal PosInf PosInf (Fin (4728779608739021 / 4503599627370496))
      (Fin (4278419646001971 / 4503599627370496)) = Some HOLD"
    by (simp add: generateSignal_def num_gt_def)
  then show ?thesis
    by (simp add: generateRow_pair Let_def mid_99 mid_0 r w avg upper_bound_val lower_bound_val
        spec_ratio_def timestamp_quote date_gt_def num_gt_def)
qed

text \<open>
  C1, amended. For every array of at least two quotes \<open>generateRow\<close> returns a row
  and raises nothing, whatever the second mid-price; the ratio is the binary64
  quotient of the two mid-prices and is pushed into the window as its newest entry;
  and when the second mid-price is zero the ratio is not finite (an infinity or NaN).
\<close>

theorem generateRow_zero_denominator:
  "\<exists>row. generateRow (a # b # rest) queue =
       (Inr row, snd (updateMovingAverage (ratio row) queue))
     \<and> ratio row = num_div (calculateMidPrice a) (calculateMidPrice b)
     \<and> last (snd (generateRow (a # b # rest) queue)) = ratio row
     \<and> (is_zero (calculateMidPrice b) \<longrightarrow> \<not> isFinite (ratio row))"
  by (simp add: generateRow_pair Let_def last_window num_div_zero_not_finite)

text \<open>The theorem at the mid-prices 99 and 0.\<close>

theorem generateRow_zero_denominator_witness:
  "is_zero (calculateMidPrice (quote (Fin 0) (Fin 0) (Fin 2000)))
     \<and> (\<exists>row.
          generateRow [quote (Fin 100) (Fin 98) (Fin 1000), quote (Fin 0) (Fin 0) (Fin 2000)] []
            = (Inr row, snd (updateMovingAverage (ratio row) []))
          \<and> last (snd (generateRow
                [quote (Fin 100) (Fin 98) (Fin 1000), quote (Fin 0) (Fin 0) (Fin 2000)] []))
              = ratio row
          \<and> \<not> isFinite (ratio row))"
  using generateRow_zero_denominator
    [of "quote (Fin 100) (Fin 98) (Fin 1000)" "quote (Fin 0) (Fin 0) (Fin 2000)" "[]" "[]"]
  by (auto simp: mid_0)

end
